theory Spec2Isabelle
  imports Main "HOL-Library.Word"
begin

section \<open>Values of the Go program\<close>

text \<open>
  A \<^verbatim>\<open>[]byte\<close> is a byte list or the nil slice (\<open>None\<close>); the empty slice
  \<open>Some []\<close> is a different value.  A \<^verbatim>\<open>time.Time\<close> is a point on the integer
  time line the database compares against its own clock.  A \<^verbatim>\<open>time.Duration\<close>
  is a signed 64-bit count of nanoseconds.
\<close>

type_synonym bytes = "8 word list"
type_synonym Time = int
type_synonym Duration = "64 word"

text \<open>
  A non-nil Go \<^verbatim>\<open>error\<close>: the sentinel \<^verbatim>\<open>sql.ErrNoRows\<close> of database/sql, or an
  error reported by the driver or the server, identified by its message.  The nil
  error is \<open>None\<close> of \<open>error option\<close>.
\<close>

datatype error = ErrNoRows | ErrDriver string

definition Minute :: Duration where
  "Minute = 60000000000"

section \<open>Configuration\<close>

text \<open>
  \<^verbatim>\<open>storeOptions\<close>, with the fields the composite literal \<^verbatim>\<open>defaultOptions\<close>
  initialises (lines 17-23).
\<close>

record storeOptions =
  sessionTableName :: string
  tokenColumnName :: string
  dataColumnName :: string
  expiryColumnName :: string
  cleanupInterval :: Duration

definition defaultOptions :: storeOptions where
  "defaultOptions =
     \<lparr> sessionTableName = ''sessions'',
       tokenColumnName = ''token'',
       dataColumnName = ''data'',
       expiryColumnName = ''expiry'',
       cleanupInterval = 5 * Minute \<rparr>"

text \<open>
  A \<^verbatim>\<open>StoreOption\<close> is called as \<^verbatim>\<open>opt(&storeOpts)\<close>: a function that updates the
  options in place.
\<close>

type_synonym StoreOption = "storeOptions \<Rightarrow> storeOptions"

section \<open>fmt.Sprintf on string operands\<close>

text \<open>
  The verbs the program uses: \<^verbatim>\<open>%s\<close> substitutes the next operand.  As in Go, a verb
  with no operand left prints \<^verbatim>\<open>%!s(MISSING)\<close>, operands left over are reported in
  a trailing \<^verbatim>\<open>%!(EXTRA ...)\<close>, and \<^verbatim>\<open>%%\<close> prints a percent sign.  Every other
  character is copied.
\<close>

fun extra_operands :: "string list \<Rightarrow> string" where
  "extra_operands [] = []"
| "extra_operands [a] = ''string='' @ a"
| "extra_operands (a # as) = ''string='' @ a @ '', '' @ extra_operands as"

fun Sprintf :: "string \<Rightarrow> string list \<Rightarrow> string" where
  "Sprintf [] [] = []"
| "Sprintf [] (a # as) = ''%!(EXTRA '' @ extra_operands (a # as) @ '')''"
| "Sprintf [c] as = (if c = CHR ''%'' then ''%!(NOVERB)'' @ Sprintf [] as else c # Sprintf [] as)"
| "Sprintf (c # v # rest) as =
     (if c = CHR ''%'' then
        (if v = CHR ''s'' then
           (case as of
              [] \<Rightarrow> ''%!s(MISSING)'' @ Sprintf rest []
            | a # as' \<Rightarrow> a @ Sprintf rest as')
         else if v = CHR ''%'' then CHR ''%'' # Sprintf rest as
         else c # Sprintf (v # rest) as)
      else c # Sprintf (v # rest) as)"

section \<open>The database: database/sql over a PostgreSQL table\<close>

text \<open>
  The database is not part of the program.  It is modelled as far as the program
  talks to it: one table of session rows with a unique token column, the server's
  clock, and the failure (if any) that the connection reports for a statement.
\<close>

record session =
  s_token :: string
  s_data :: "bytes option"
  s_expiry :: Time

record DB =
  relname :: string
  col_token :: string
  col_data :: string
  col_expiry :: string
  stored :: "session list"
  current_timestamp :: Time
  failure :: "string option"

text \<open>The operands bound to the placeholders \<^verbatim>\<open>$1\<close>, \<^verbatim>\<open>$2\<close>, \<^verbatim>\<open>$3\<close>.\<close>

datatype arg = AString string | ABytes "bytes option" | ATime Time

text \<open>The statement shapes the server is asked to run.\<close>

datatype stmt =
    SelectData string
  | SelectAll
  | Upsert string "bytes option" Time
  | DeleteToken string
  | DeleteExpired

text \<open>
  The server reads a statement text against the names of its table.  Only the five
  shapes the store sends are modelled; any other text, or a text that names a table
  or column the database does not have, is an error of the server.
\<close>

fun pg_parse :: "DB \<Rightarrow> string \<Rightarrow> arg list \<Rightarrow> stmt option" where
  "pg_parse d q [] =
     (if q = ''SELECT '' @ col_token d @ '', '' @ col_data d @ '' FROM '' @ relname d
             @ '' WHERE current_timestamp < '' @ col_expiry d
      then Some SelectAll
      else if q = ''DELETE FROM '' @ relname d @ '' WHERE '' @ col_expiry d
             @ '' < current_timestamp''
      then Some DeleteExpired
      else None)"
| "pg_parse d q [AString t] =
     (if q = ''SELECT '' @ col_data d @ '' FROM '' @ relname d @ '' WHERE '' @ col_token d
             @ '' = $1 AND current_timestamp < '' @ col_expiry d
      then Some (SelectData t)
      else if q = ''DELETE FROM '' @ relname d @ '' WHERE '' @ col_token d @ '' = $1''
      then Some (DeleteToken t)
      else None)"
| "pg_parse d q [AString t, ABytes b, ATime e] =
     (if q = ''INSERT INTO '' @ relname d @ '' ('' @ col_token d @ '', '' @ col_data d
             @ '', '' @ col_expiry d @ '') VALUES ($1, $2, $3) ON CONFLICT (''
             @ col_token d @ '') DO UPDATE SET '' @ col_data d @ '' = EXCLUDED.''
             @ col_data d @ '', '' @ col_expiry d @ '' = EXCLUDED.'' @ col_expiry d
      then Some (Upsert t b e)
      else None)"
| "pg_parse d q args = None"

text \<open>
  A row is active when the server's clock is strictly before its expiry
  (\<^verbatim>\<open>current_timestamp < expiry\<close>).
\<close>

definition active :: "DB \<Rightarrow> session \<Rightarrow> bool" where
  "active d r = (current_timestamp d < s_expiry r)"

text \<open>
  \<^verbatim>\<open>INSERT ... ON CONFLICT (token) DO UPDATE SET data = EXCLUDED.data,
  expiry = EXCLUDED.expiry\<close>: the row with this token gets the new data and expiry;
  when there is none, a new row is appended.
\<close>

fun upsert :: "string \<Rightarrow> bytes option \<Rightarrow> Time \<Rightarrow> session list \<Rightarrow> session list" where
  "upsert t b e [] = [\<lparr> s_token = t, s_data = b, s_expiry = e \<rparr>]"
| "upsert t b e (r # rs) =
     (if s_token r = t then r\<lparr> s_data := b, s_expiry := e \<rparr> # rs
      else r # upsert t b e rs)"

definition unsupported :: error where
  "unsupported = ErrDriver ''pq: statement not accepted by the server''"

text \<open>
  \<^verbatim>\<open>db.Exec\<close>: runs a statement and returns the database after it, and the error.
  The result value is dropped, as every caller does (\<^verbatim>\<open>_, err := p.db.Exec(...)\<close>).
\<close>

definition Exec :: "DB \<Rightarrow> string \<Rightarrow> arg list \<Rightarrow> DB \<times> error option" where
  "Exec d q args =
     (case failure d of
        Some m \<Rightarrow> (d, Some (ErrDriver m))
      | None \<Rightarrow>
          (case pg_parse d q args of
             Some (Upsert t b e) \<Rightarrow> (d\<lparr> stored := upsert t b e (stored d) \<rparr>, None)
           | Some (DeleteToken t) \<Rightarrow>
               (d\<lparr> stored := filter (\<lambda>r. s_token r \<noteq> t) (stored d) \<rparr>, None)
           | Some DeleteExpired \<Rightarrow>
               (d\<lparr> stored := filter (\<lambda>r. \<not> s_expiry r < current_timestamp d) (stored d) \<rparr>,
                None)
           | _ \<Rightarrow> (d, Some unsupported)))"

text \<open>
  \<^verbatim>\<open>db.QueryRow\<close> returns a \<^verbatim>\<open>*sql.Row\<close>: a deferred error, no row, or the first
  row of the result (here its single column).
\<close>

datatype Row = RowError error | RowNone | RowValue "bytes option"

definition QueryRow :: "DB \<Rightarrow> string \<Rightarrow> arg list \<Rightarrow> Row" where
  "QueryRow d q args =
     (case failure d of
        Some m \<Rightarrow> RowError (ErrDriver m)
      | None \<Rightarrow>
          (case pg_parse d q args of
             Some (SelectData t) \<Rightarrow>
               (case filter (\<lambda>r. s_token r = t \<and> active d r) (stored d) of
                  [] \<Rightarrow> RowNone
                | r # rs \<Rightarrow> RowValue (s_data r))
           | _ \<Rightarrow> RowError unsupported))"

text \<open>
  \<^verbatim>\<open>row.Scan(&b)\<close>: the destination after the call, and the error.  With no row the
  error is \<^verbatim>\<open>sql.ErrNoRows\<close> and the destination is untouched.
\<close>

fun Scan :: "Row \<Rightarrow> bytes option \<Rightarrow> bytes option \<times> error option" where
  "Scan (RowError e) b = (b, Some e)"
| "Scan RowNone b = (b, Some ErrNoRows)"
| "Scan (RowValue v) b = (v, None)"

section \<open>The store\<close>

text \<open>
  The stop channel is made by \<^verbatim>\<open>make(chan bool)\<close>: it has no buffer, so a send
  completes only in a handoff to a receive.  A nil channel field is \<open>None\<close>.
\<close>

datatype chan = Unbuffered

record PostgresStore =
  db :: DB
  stopCleanup :: "chan option"
  opts :: storeOptions

text \<open>The store is configured with the names of the database's table and columns.\<close>

definition configured :: "PostgresStore \<Rightarrow> bool" where
  "configured p =
     (sessionTableName (opts p) = relname (db p) \<and>
      tokenColumnName (opts p) = col_token (db p) \<and>
      dataColumnName (opts p) = col_data (db p) \<and>
      expiryColumnName (opts p) = col_expiry (db p))"

subsection \<open>Find (lines 57-69)\<close>

text \<open>The statement text and the bound operands handed to \<^verbatim>\<open>QueryRow\<close>.\<close>

definition Find_stmt :: "storeOptions \<Rightarrow> string \<Rightarrow> string \<times> arg list" where
  "Find_stmt os token =
     (Sprintf ''SELECT %s FROM %s WHERE %s = $1 AND current_timestamp < %s''
        [dataColumnName os, sessionTableName os, tokenColumnName os, expiryColumnName os],
      [AString token])"

definition Find :: "PostgresStore \<Rightarrow> string \<Rightarrow> bytes option \<times> bool \<times> error option" where
  "Find p token =
     (let (q, args) = Find_stmt (opts p) token;
          row = QueryRow (db p) q args;
          (b, err) = Scan row None
      in if err = Some ErrNoRows then (None, False, None)
         else if err \<noteq> None then (None, False, err)
         else (b, True, None))"

subsection \<open>Commit (lines 74-85)\<close>

definition Commit_stmt :: "storeOptions \<Rightarrow> string \<Rightarrow> bytes option \<Rightarrow> Time \<Rightarrow> string \<times> arg list" where
  "Commit_stmt os token b expiry =
     (Sprintf ''INSERT INTO %s (%s, %s, %s) VALUES ($1, $2, $3) ON CONFLICT (%s) DO UPDATE SET %s = EXCLUDED.%s, %s = EXCLUDED.%s''
        [sessionTableName os, tokenColumnName os, dataColumnName os, expiryColumnName os,
         tokenColumnName os, dataColumnName os, dataColumnName os, expiryColumnName os,
         expiryColumnName os],
      [AString token, ABytes b, ATime expiry])"

text \<open>The store after the call (its database may have changed), and the error.\<close>

definition Commit :: "PostgresStore \<Rightarrow> string \<Rightarrow> bytes option \<Rightarrow> Time \<Rightarrow> PostgresStore \<times> error option" where
  "Commit p token b expiry =
     (let (q, args) = Commit_stmt (opts p) token b expiry;
          (d, err) = Exec (db p) q args
      in if err \<noteq> None then (p\<lparr> db := d \<rparr>, err)
         else (p\<lparr> db := d \<rparr>, None))"

subsection \<open>Delete (lines 89-95)\<close>

definition Delete_stmt :: "storeOptions \<Rightarrow> string \<Rightarrow> string \<times> arg list" where
  "Delete_stmt os token =
     (Sprintf ''DELETE FROM %s WHERE %s = $1'' [sessionTableName os, tokenColumnName os],
      [AString token])"

definition Delete :: "PostgresStore \<Rightarrow> string \<Rightarrow> PostgresStore \<times> error option" where
  "Delete p token =
     (let (q, args) = Delete_stmt (opts p) token;
          (d, err) = Exec (db p) q args
      in (p\<lparr> db := d \<rparr>, err))"

subsection \<open>All (lines 99-131)\<close>

text \<open>
  \<^verbatim>\<open>*sql.Rows\<close>: what \<^verbatim>\<open>rows.Scan(&token, &data)\<close> gives for each row that
  \<^verbatim>\<open>rows.Next()\<close> delivers, and the value of \<^verbatim>\<open>rows.Err()\<close> once \<^verbatim>\<open>Next\<close> has
  returned false.
\<close>

record Rows =
  delivered :: "(error + string \<times> bytes option) list"
  rows_err :: "error option"

definition Query :: "DB \<Rightarrow> string \<Rightarrow> arg list \<Rightarrow> error + Rows" where
  "Query d q args =
     (case failure d of
        Some m \<Rightarrow> Inl (ErrDriver m)
      | None \<Rightarrow>
          (case pg_parse d q args of
             Some SelectAll \<Rightarrow>
               Inr \<lparr> delivered = map (\<lambda>r. Inr (s_token r, s_data r)) (filter (active d) (stored d)),
                     rows_err = None \<rparr>
           | _ \<Rightarrow> Inl unsupported))"

definition All_stmt :: "storeOptions \<Rightarrow> string \<times> arg list" where
  "All_stmt os =
     (Sprintf ''SELECT %s, %s FROM %s WHERE current_timestamp < %s''
        [tokenColumnName os, dataColumnName os, sessionTableName os, expiryColumnName os],
      [])"

text \<open>The loop \<^verbatim>\<open>for rows.Next() { ... }\<close>: a failed scan returns at once.\<close>

fun All_loop ::
  "(error + string \<times> bytes option) list \<Rightarrow> (string \<rightharpoonup> bytes option)
     \<Rightarrow> error + (string \<rightharpoonup> bytes option)" where
  "All_loop [] sessions = Inr sessions"
| "All_loop (Inl err # rest) sessions = Inl err"
| "All_loop (Inr (token, data) # rest) sessions = All_loop rest (sessions(token \<mapsto> data))"

text \<open>
  The method \<^verbatim>\<open>All\<close>.  The returned map is nil (\<open>None\<close>) exactly on the error
  returns.
\<close>

definition All_store :: "PostgresStore \<Rightarrow> (string \<rightharpoonup> bytes option) option \<times> error option" where
  "All_store p =
     (let (q, args) = All_stmt (opts p) in
      case Query (db p) q args of
        Inl err \<Rightarrow> (None, Some err)
      | Inr rows \<Rightarrow>
          (case All_loop (delivered rows) Map.empty of
             Inl err \<Rightarrow> (None, Some err)
           | Inr sessions \<Rightarrow>
               (case rows_err rows of
                  Some err \<Rightarrow> (None, Some err)
                | None \<Rightarrow> (Some sessions, None))))"

subsection \<open>deleteExpired (lines 166-172)\<close>

definition deleteExpired_stmt :: "storeOptions \<Rightarrow> string \<times> arg list" where
  "deleteExpired_stmt os =
     (Sprintf ''DELETE FROM %s WHERE %s < current_timestamp''
        [sessionTableName os, expiryColumnName os],
      [])"

definition deleteExpired :: "PostgresStore \<Rightarrow> PostgresStore \<times> error option" where
  "deleteExpired p =
     (let (q, args) = deleteExpired_stmt (opts p);
          (d, err) = Exec (db p) q args
      in (p\<lparr> db := d \<rparr>, err))"

subsection \<open>New (lines 27-44)\<close>

text \<open>
  The goroutine running \<^verbatim>\<open>startCleanup\<close>: never started; started with its interval
  and about to make the channel and the ticker (lines 134-135); waiting in the
  \<^verbatim>\<open>select\<close> with its ticker running; returned (line 145).
\<close>

datatype goroutine = NotSpawned | Spawned Duration | Selecting Duration | Exited

fun apply_options :: "StoreOption list \<Rightarrow> storeOptions \<Rightarrow> storeOptions" where
  "apply_options [] storeOpts = storeOpts"
| "apply_options (opt # rest) storeOpts = apply_options rest (opt storeOpts)"

text \<open>
  \<^verbatim>\<open>New\<close> returns the store; the second component is the cleanup goroutine that the
  \<^verbatim>\<open>go\<close> statement has or has not started.  The comparison is on signed 64-bit
  values.
\<close>

definition New :: "DB \<Rightarrow> StoreOption list \<Rightarrow> PostgresStore \<times> goroutine" where
  "New d options =
     (let storeOpts = apply_options options defaultOptions;
          p = \<lparr> db = d, stopCleanup = None, opts = storeOpts \<rparr>
      in if 0 <s cleanupInterval (opts p) then (p, Spawned (cleanupInterval (opts p)))
         else (p, NotSpawned))"

text \<open>
  Modelled from the spec: \<^verbatim>\<open>WithCleanupInterval\<close> is declared outside the file at
  hand; it is the option that sets \<^verbatim>\<open>cleanupInterval\<close>.
\<close>

definition WithCleanupInterval :: "Duration \<Rightarrow> StoreOption" where
  "WithCleanupInterval interval = (\<lambda>storeOpts. storeOpts\<lparr> cleanupInterval := interval \<rparr>)"

definition NewWithCleanupInterval :: "DB \<Rightarrow> Duration \<Rightarrow> PostgresStore \<times> goroutine" where
  "NewWithCleanupInterval d interval = New d [WithCleanupInterval interval]"

section \<open>The cleanup loop and StopCleanup (lines 133-164)\<close>

text \<open>
  A goroutine that has called \<^verbatim>\<open>StopCleanup\<close>: at the nil test (line 161), at the
  send \<^verbatim>\<open>p.stopCleanup <- true\<close> (line 162) which has not completed, or returned.
\<close>

datatype caller = Entered | Sending | Returned

text \<open>
  The running program: the store, the cleanup goroutine, what \<^verbatim>\<open>log.Println\<close> has
  printed, and the goroutines calling \<^verbatim>\<open>StopCleanup\<close>.
\<close>

record system =
  store :: PostgresStore
  cleanup :: goroutine
  logged :: "error list"
  callers :: "caller list"

text \<open>
  The atomic steps of \<^verbatim>\<open>startCleanup\<close> and \<^verbatim>\<open>StopCleanup\<close>, interleaved in any
  order:
  \<^item> \<open>MakeChan\<close> (lines 134-135): the cleanup goroutine stores the new channel in
    \<^verbatim>\<open>p.stopCleanup\<close>, makes the ticker and reaches the \<^verbatim>\<open>select\<close>;
  \<^item> \<open>Tick\<close> (lines 138-142): the ticker fires, \<^verbatim>\<open>deleteExpired\<close> runs, its error
    (if any) is printed by \<^verbatim>\<open>log.Println\<close>, and the loop is back at the \<^verbatim>\<open>select\<close>;
  \<^item> \<open>Test k\<close> (line 161): caller \<open>k\<close> tests \<^verbatim>\<open>p.stopCleanup != nil\<close> and goes on to
    the send, or returns;
  \<^item> \<open>Handoff k\<close> (line 162 with lines 143-145): the send of caller \<open>k\<close> meets the
    receive of the \<^verbatim>\<open>select\<close>; the caller returns, the loop stops its ticker and
    returns.
  The time between ticks is not modelled: a tick can be taken whenever the loop is at
  the \<^verbatim>\<open>select\<close>.  A step that cannot be taken in a state is \<open>None\<close>.
\<close>

datatype event = MakeChan | Tick | Test nat | Handoff nat

fun step :: "event \<Rightarrow> system \<Rightarrow> system option" where
  "step MakeChan s =
     (case cleanup s of
        Spawned interval \<Rightarrow>
          Some (s\<lparr> store := (store s)\<lparr> stopCleanup := Some Unbuffered \<rparr>,
                  cleanup := Selecting interval \<rparr>)
      | _ \<Rightarrow> None)"
| "step Tick s =
     (case cleanup s of
        Selecting interval \<Rightarrow>
          (let (p, err) = deleteExpired (store s)
           in Some (s\<lparr> store := p,
                      logged := (case err of None \<Rightarrow> logged s | Some e \<Rightarrow> logged s @ [e]) \<rparr>))
      | _ \<Rightarrow> None)"
| "step (Test k) s =
     (if k < length (callers s) \<and> callers s ! k = Entered
      then Some (s\<lparr> callers :=
                   (callers s)[k := (if stopCleanup (store s) \<noteq> None then Sending else Returned)] \<rparr>)
      else None)"
| "step (Handoff k) s =
     (if k < length (callers s) \<and> callers s ! k = Sending
      then (case cleanup s of
              Selecting interval \<Rightarrow>
                Some (s\<lparr> cleanup := Exited, callers := (callers s)[k := Returned] \<rparr>)
            | _ \<Rightarrow> None)
      else None)"

fun run :: "event list \<Rightarrow> system \<Rightarrow> system option" where
  "run [] s = Some s"
| "run (e # es) s = (case step e s of None \<Rightarrow> None | Some s' \<Rightarrow> run es s')"

text \<open>The steps that can be taken in a state; with none, nothing ever happens again.\<close>

definition enabled :: "system \<Rightarrow> event list" where
  "enabled s =
     filter (\<lambda>e. step e s \<noteq> None)
       ([MakeChan, Tick] @ map Test [0..<length (callers s)]
          @ map Handoff [0..<length (callers s)])"

text \<open>The program right after \<^verbatim>\<open>New\<close>, with the given callers of \<^verbatim>\<open>StopCleanup\<close>.\<close>

definition boot :: "PostgresStore \<times> goroutine \<Rightarrow> caller list \<Rightarrow> system" where
  "boot pg cs = \<lparr> store = fst pg, cleanup = snd pg, logged = [], callers = cs \<rparr>"

section \<open>Notions used in the statements\<close>

text \<open>The token column is unique, as the conflict target of the upsert requires.\<close>

definition unique_tokens :: "DB \<Rightarrow> bool" where
  "unique_tokens d = distinct (map s_token (stored d))"

text \<open>The store when the server's clock reads \<open>now\<close>; nothing else differs.\<close>

definition at_time :: "Time \<Rightarrow> PostgresStore \<Rightarrow> PostgresStore" where
  "at_time now p = p\<lparr> db := (db p)\<lparr> current_timestamp := now \<rparr> \<rparr>"

section \<open>Example states\<close>

text \<open>
  A database with the default names at time 10: token \<open>abc\<close> expires at 100, token
  \<open>old\<close> expired at 5 and has not been swept.
\<close>

definition example_db :: DB where
  "example_db =
     \<lparr> relname = ''sessions'', col_token = ''token'', col_data = ''data'',
       col_expiry = ''expiry'',
       stored = [\<lparr> s_token = ''abc'', s_data = Some [1, 2], s_expiry = 100 \<rparr>,
                 \<lparr> s_token = ''old'', s_data = Some [3], s_expiry = 5 \<rparr>],
       current_timestamp = 10,
       failure = None \<rparr>"

text \<open>The same database behind a connection that fails.\<close>

definition broken_db :: DB where
  "broken_db = example_db\<lparr> failure := Some ''connection refused'' \<rparr>"

definition example_store :: PostgresStore where
  "example_store = fst (New example_db [])"

definition broken_store :: PostgresStore where
  "broken_store = fst (New broken_db [])"

text \<open>
  A program whose cleanup loop waits in its \<^verbatim>\<open>select\<close>, over the failing connection.
\<close>

definition broken_system :: system where
  "broken_system =
     \<lparr> store = broken_store\<lparr> stopCleanup := Some Unbuffered \<rparr>,
       cleanup = Selecting (5 * Minute), logged = [], callers = [Entered] \<rparr>"

text \<open>
  Programs with two callers of \<^verbatim>\<open>StopCleanup\<close>: right after \<^verbatim>\<open>New\<close> with the default
  options; right after \<^verbatim>\<open>NewWithCleanupInterval\<close> with interval 0; and with the loop
  returned after the first caller's stop, the second caller at its send.
\<close>

definition started :: system where
  "started = boot (New example_db []) [Entered, Entered]"

definition never_started :: system where
  "never_started = boot (NewWithCleanupInterval example_db 0) [Entered, Entered]"

definition blocked :: system where
  "blocked =
     \<lparr> store = example_store\<lparr> stopCleanup := Some Unbuffered \<rparr>,
       cleanup = Exited, logged = [], callers = [Returned, Sending] \<rparr>"

section \<open>Statement texts\<close>

text \<open>
  With the store configured for the database, each statement text is one the server
  reads as the intended statement.
\<close>

lemma Find_stmt_parse:
  "configured p \<Longrightarrow> Find_stmt (opts p) t = (q, args) \<Longrightarrow>
   pg_parse (db p) q args = Some (SelectData t)"
  by (auto simp add: Find_stmt_def configured_def)

lemma Delete_stmt_parse:
  "configured p \<Longrightarrow> Delete_stmt (opts p) t = (q, args) \<Longrightarrow>
   pg_parse (db p) q args = Some (DeleteToken t)"
  by (auto simp add: Delete_stmt_def configured_def)

lemma Commit_stmt_parse:
  "configured p \<Longrightarrow> Commit_stmt (opts p) t b e = (q, args) \<Longrightarrow>
   pg_parse (db p) q args = Some (Upsert t b e)"
  by (auto simp add: Commit_stmt_def configured_def)

lemma All_stmt_parse:
  "configured p \<Longrightarrow> All_stmt (opts p) = (q, args) \<Longrightarrow>
   pg_parse (db p) q args = Some SelectAll"
  by (auto simp add: All_stmt_def configured_def)

lemma deleteExpired_stmt_parse:
  "configured p \<Longrightarrow> deleteExpired_stmt (opts p) = (q, args) \<Longrightarrow>
   pg_parse (db p) q args = Some DeleteExpired"
  by (auto simp add: deleteExpired_stmt_def configured_def)

section \<open>The operations on a running and on a failing database\<close>

lemma Find_running:
  assumes "configured p" and "failure (db p) = None"
  shows "Find p t =
           (case filter (\<lambda>r. s_token r = t \<and> active (db p) r) (stored (db p)) of
              [] \<Rightarrow> (None, False, None)
            | r # rs \<Rightarrow> (s_data r, True, None))"
proof -
  obtain q args where st: "Find_stmt (opts p) t = (q, args)"
    by (cases "Find_stmt (opts p) t")
  have "pg_parse (db p) q args = Some (SelectData t)"
    using assms(1) st by (rule Find_stmt_parse)
  then show ?thesis
    using assms(2) by (simp add: Find_def QueryRow_def st split: list.splits)
qed

lemma Find_failing:
  "failure (db p) = Some m \<Longrightarrow> Find p t = (None, False, Some (ErrDriver m))"
  by (simp add: Find_def QueryRow_def split: prod.splits)

lemma Find_row_error:
  assumes "Find_stmt (opts p) t = (q, args)"
    and "QueryRow (db p) q args = RowError e" and "e \<noteq> ErrNoRows"
  shows "Find p t = (None, False, Some e)"
  using assms by (simp add: Find_def)

lemma Commit_running:
  assumes "configured p" and "failure (db p) = None"
  shows "Commit p t b e =
           (p\<lparr> db := (db p)\<lparr> stored := upsert t b e (stored (db p)) \<rparr> \<rparr>, None)"
proof -
  obtain q args where st: "Commit_stmt (opts p) t b e = (q, args)"
    by (cases "Commit_stmt (opts p) t b e")
  have "pg_parse (db p) q args = Some (Upsert t b e)"
    using assms(1) st by (rule Commit_stmt_parse)
  then show ?thesis
    using assms(2) by (simp add: Commit_def Exec_def st)
qed

lemma Delete_running:
  assumes "configured p" and "failure (db p) = None"
  shows "Delete p t =
           (p\<lparr> db := (db p)\<lparr> stored := filter (\<lambda>r. s_token r \<noteq> t) (stored (db p)) \<rparr> \<rparr>,
            None)"
proof -
  obtain q args where st: "Delete_stmt (opts p) t = (q, args)"
    by (cases "Delete_stmt (opts p) t")
  have "pg_parse (db p) q args = Some (DeleteToken t)"
    using assms(1) st by (rule Delete_stmt_parse)
  then show ?thesis
    using assms(2) by (simp add: Delete_def Exec_def st)
qed

lemma deleteExpired_running:
  assumes "configured p" and "failure (db p) = None"
  shows "deleteExpired p =
           (p\<lparr> db := (db p)\<lparr> stored :=
                  filter (\<lambda>r. \<not> s_expiry r < current_timestamp (db p)) (stored (db p)) \<rparr> \<rparr>,
            None)"
proof -
  obtain q args where st: "deleteExpired_stmt (opts p) = (q, args)"
    by (cases "deleteExpired_stmt (opts p)")
  have "pg_parse (db p) q args = Some DeleteExpired"
    using assms(1) st by (rule deleteExpired_stmt_parse)
  then show ?thesis
    using assms(2) by (simp add: deleteExpired_def Exec_def st)
qed

lemma All_store_running:
  assumes "configured p" and "failure (db p) = None"
  shows "All_store p =
           (case All_loop (map (\<lambda>r. Inr (s_token r, s_data r))
                            (filter (active (db p)) (stored (db p)))) Map.empty of
              Inl err \<Rightarrow> (None, Some err)
            | Inr m \<Rightarrow> (Some m, None))"
proof -
  obtain q args where st: "All_stmt (opts p) = (q, args)"
    by (cases "All_stmt (opts p)")
  have "pg_parse (db p) q args = Some SelectAll"
    using assms(1) st by (rule All_stmt_parse)
  then show ?thesis
    using assms(2) by (simp add: All_store_def Query_def st split: sum.splits)
qed

lemma example_store_eq:
  "example_store = \<lparr> db = example_db, stopCleanup = None, opts = defaultOptions \<rparr>"
  by (simp add: example_store_def New_def Let_def)

lemma broken_store_eq:
  "broken_store = \<lparr> db = broken_db, stopCleanup = None, opts = defaultOptions \<rparr>"
  by (simp add: broken_store_def New_def Let_def)

lemma configured_example: "configured example_store"
  by (simp add: example_store_eq configured_def example_db_def defaultOptions_def)

section \<open>Rows with unique tokens\<close>

lemma find_absent: "t \<notin> s_token ` set rs \<Longrightarrow> find (\<lambda>r. s_token r = t) rs = None"
  by (induction rs) auto

lemma filter_token:
  "distinct (map s_token rs) \<Longrightarrow>
   filter (\<lambda>r. s_token r = t \<and> P r) rs =
     (case find (\<lambda>r. s_token r = t) rs of None \<Rightarrow> [] | Some r \<Rightarrow> if P r then [r] else [])"
proof (induction rs)
  case Nil
  then show ?case by simp
next
  case (Cons r rs)
  show ?case
  proof (cases "s_token r = t")
    case True
    with Cons.prems have "t \<notin> s_token ` set rs" by auto
    then have "filter (\<lambda>r. s_token r = t \<and> P r) rs = []"
      by (auto simp add: filter_empty_conv)
    with True show ?thesis by simp
  next
    case False
    with Cons show ?thesis by simp
  qed
qed

lemma upsert_tokens: "s_token ` set (upsert t b e rs) = insert t (s_token ` set rs)"
  by (induction rs) auto

lemma upsert_distinct:
  "distinct (map s_token rs) \<Longrightarrow> distinct (map s_token (upsert t b e rs))"
  by (induction rs) (auto simp add: upsert_tokens)

lemma upsert_find:
  "find (\<lambda>r. s_token r = t') (upsert t b e rs) =
     (if t' = t then Some \<lparr> s_token = t, s_data = b, s_expiry = e \<rparr>
      else find (\<lambda>r. s_token r = t') rs)"
  by (induction rs) auto

lemma upsert_twice: "upsert t b e (upsert t b' e' rs) = upsert t b e rs"
  by (induction rs) auto

lemma upsert_new:
  "t \<notin> s_token ` set rs \<Longrightarrow> upsert t b e rs = rs @ [\<lparr> s_token = t, s_data = b, s_expiry = e \<rparr>]"
  by (induction rs) auto

lemma upsert_existing:
  "t \<in> s_token ` set rs \<Longrightarrow> distinct (map s_token rs) \<Longrightarrow>
   upsert t b e rs = map (\<lambda>r. if s_token r = t then \<lparr> s_token = t, s_data = b, s_expiry = e \<rparr> else r) rs"
proof (induction rs)
  case Nil
  then show ?case by simp
next
  case (Cons r rs)
  show ?case
  proof (cases "s_token r = t")
    case True
    with Cons.prems have "t \<notin> s_token ` set rs" by auto
    then have "map (\<lambda>r. if s_token r = t then \<lparr> s_token = t, s_data = b, s_expiry = e \<rparr> else r) rs = rs"
      by (induction rs) auto
    with True show ?thesis by simp
  next
    case False
    with Cons show ?thesis by auto
  qed
qed

lemma find_member:
  "find (\<lambda>x. s_token x = t) rs = Some r \<Longrightarrow> r \<in> set rs \<and> s_token r = t"
  by (induction rs) (auto split: if_splits)

lemma find_unique:
  "distinct (map s_token rs) \<Longrightarrow> r \<in> set rs \<Longrightarrow> find (\<lambda>x. s_token x = s_token r) rs = Some r"
proof (induction rs)
  case Nil
  then show ?case by simp
next
  case (Cons a rs)
  show ?case
  proof (cases "a = r")
    case True
    then show ?thesis by simp
  next
    case False
    with Cons.prems have in_rs: "r \<in> set rs" by simp
    with Cons.prems have "s_token a \<noteq> s_token r" by auto
    moreover have "find (\<lambda>x. s_token x = s_token r) rs = Some r"
      using Cons.IH Cons.prems in_rs by simp
    ultimately show ?thesis by simp
  qed
qed

lemma All_loop_rows:
  "distinct (map s_token rs) \<Longrightarrow>
   \<exists>m'. All_loop (map (\<lambda>r. Inr (s_token r, s_data r)) (filter P rs)) m = Inr m' \<and>
     (\<forall>t. m' t = (case find (\<lambda>r. s_token r = t) rs of
                     None \<Rightarrow> m t
                   | Some r \<Rightarrow> if P r then Some (s_data r) else m t))"
proof (induction rs arbitrary: m)
  case Nil
  then show ?case by simp
next
  case (Cons r rs)
  from Cons.prems have d: "distinct (map s_token rs)" and n: "s_token r \<notin> s_token ` set rs"
    by auto
  have absent: "find (\<lambda>x. s_token x = s_token r) rs = None"
    using n by (rule find_absent)
  show ?case
  proof (cases "P r")
    case True
    obtain m' where run: "All_loop (map (\<lambda>r. Inr (s_token r, s_data r)) (filter P rs))
                            (m(s_token r \<mapsto> s_data r)) = Inr m'"
      and look: "\<And>t. m' t = (case find (\<lambda>r. s_token r = t) rs of
                     None \<Rightarrow> (m(s_token r \<mapsto> s_data r)) t
                   | Some x \<Rightarrow> if P x then Some (s_data x) else (m(s_token r \<mapsto> s_data r)) t)"
      using Cons.IH [OF d, of "m(s_token r \<mapsto> s_data r)"] by blast
    have "m' t = (case find (\<lambda>x. s_token x = t) (r # rs) of
                     None \<Rightarrow> m t
                   | Some x \<Rightarrow> if P x then Some (s_data x) else m t)" for t
    proof (cases "s_token r = t")
      case eq: True
      then have "find (\<lambda>x. s_token x = t) rs = None" using absent by simp
      with eq True show ?thesis by (simp add: look)
    next
      case False
      then show ?thesis by (simp add: look split: option.splits)
    qed
    with run True show ?thesis by simp
  next
    case False
    obtain m' where run: "All_loop (map (\<lambda>r. Inr (s_token r, s_data r)) (filter P rs)) m = Inr m'"
      and look: "\<And>t. m' t = (case find (\<lambda>r. s_token r = t) rs of
                     None \<Rightarrow> m t
                   | Some x \<Rightarrow> if P x then Some (s_data x) else m t)"
      using Cons.IH [OF d, of m] by blast
    have "m' t = (case find (\<lambda>x. s_token x = t) (r # rs) of
                     None \<Rightarrow> m t
                   | Some x \<Rightarrow> if P x then Some (s_data x) else m t)" for t
    proof (cases "s_token r = t")
      case eq: True
      then have "find (\<lambda>x. s_token x = t) rs = None" using absent by simp
      with eq False show ?thesis by (simp add: look)
    next
      case neq: False
      then show ?thesis by (simp add: look)
    qed
    with run False show ?thesis by simp
  qed
qed

lemma All_store_lookup:
  assumes "configured p" and "failure (db p) = None" and "unique_tokens (db p)"
  shows "\<exists>m. All_store p = (Some m, None) \<and>
           (\<forall>t. m t = (case find (\<lambda>r. s_token r = t) (stored (db p)) of
                          None \<Rightarrow> None
                        | Some r \<Rightarrow> if active (db p) r then Some (s_data r) else None))"
proof -
  from assms(3) have "distinct (map s_token (stored (db p)))"
    by (simp add: unique_tokens_def)
  from All_loop_rows [OF this, of "active (db p)" Map.empty]
  obtain m where "All_loop (map (\<lambda>r. Inr (s_token r, s_data r))
                            (filter (active (db p)) (stored (db p)))) Map.empty = Inr m"
    and "\<forall>t. m t = (case find (\<lambda>r. s_token r = t) (stored (db p)) of
                          None \<Rightarrow> None
                        | Some r \<Rightarrow> if active (db p) r then Some (s_data r) else None)"
    by auto
  then show ?thesis
    using assms(1,2) by (simp add: All_store_running)
qed

lemma Find_lookup:
  assumes "configured p" and "failure (db p) = None" and "unique_tokens (db p)"
  shows "Find p token =
           (case find (\<lambda>r. s_token r = token) (stored (db p)) of
              None \<Rightarrow> (None, False, None)
            | Some r \<Rightarrow> if active (db p) r then (s_data r, True, None) else (None, False, None))"
proof -
  from assms(3) have "distinct (map s_token (stored (db p)))"
    by (simp add: unique_tokens_def)
  then show ?thesis
    using assms(1,2) by (simp add: Find_running filter_token split: option.splits)
qed

lemma configured_at_time: "configured (at_time now p) = configured p"
  by (simp add: configured_def at_time_def)

lemma running_example: "failure (db example_store) = None"
  by (simp add: example_store_eq example_db_def)

lemma unique_example: "unique_tokens (db example_store)"
  by (simp add: example_store_eq example_db_def unique_tokens_def)

lemma stored_example:
  "stored (db example_store) =
     [\<lparr> s_token = ''abc'', s_data = Some [1, 2], s_expiry = 100 \<rparr>,
      \<lparr> s_token = ''old'', s_data = Some [3], s_expiry = 5 \<rparr>]"
  by (simp add: example_store_eq example_db_def)

lemma clock_example: "current_timestamp (db example_store) = 10"
  by (simp add: example_store_eq example_db_def)

section \<open>Find: absence and failure\<close>

text \<open>
  C1.  On a running database, when no row with the token is active (there is no row
  with the token at all, or its expiry is not after the server's clock), \<open>Find\<close>
  returns exists = false with a nil error.  A failure of the query is returned as a
  non-nil error, with exists = false: the failure the connection reports, and more
  generally any error of the row other than \<^verbatim>\<open>sql.ErrNoRows\<close>.
\<close>

theorem Find_absent_or_failed:
  "(configured p \<and> failure (db p) = None \<and>
      (\<forall>r \<in> set (stored (db p)). s_token r = token \<longrightarrow> \<not> active (db p) r)
      \<longrightarrow> Find p token = (None, False, None)) \<and>
   (failure (db p) = Some m \<longrightarrow> Find p token = (None, False, Some (ErrDriver m))) \<and>
   (Find_stmt (opts p) token = (q, args) \<and> QueryRow (db p) q args = RowError e \<and>
      e \<noteq> ErrNoRows
      \<longrightarrow> Find p token = (None, False, Some e))"
proof (intro conjI impI)
  assume a: "configured p \<and> failure (db p) = None \<and>
      (\<forall>r \<in> set (stored (db p)). s_token r = token \<longrightarrow> \<not> active (db p) r)"
  then have "filter (\<lambda>r. s_token r = token \<and> active (db p) r) (stored (db p)) = []"
    by (auto simp add: filter_empty_conv)
  with a show "Find p token = (None, False, None)"
    by (simp add: Find_running)
next
  assume "failure (db p) = Some m"
  then show "Find p token = (None, False, Some (ErrDriver m))"
    by (rule Find_failing)
next
  assume "Find_stmt (opts p) token = (q, args) \<and> QueryRow (db p) q args = RowError e \<and>
      e \<noteq> ErrNoRows"
  then show "Find p token = (None, False, Some e)"
    by (simp add: Find_row_error)
qed

theorem Find_absent_or_failed_witness:
  "Find example_store ''never'' = (None, False, None) \<and>
   Find example_store ''old'' = (None, False, None) \<and>
   Find broken_store ''abc'' = (None, False, Some (ErrDriver ''connection refused''))"
proof -
  have 1: "Find example_store ''never'' = (None, False, None)"
    using Find_absent_or_failed
            [where p = example_store and token = "''never''" and m = "[]"
               and q = "[]" and args = "[]" and e = ErrNoRows]
          configured_example
    by (simp add: example_store_eq example_db_def active_def)
  have 2: "Find example_store ''old'' = (None, False, None)"
    using Find_absent_or_failed
            [where p = example_store and token = "''old''" and m = "[]"
               and q = "[]" and args = "[]" and e = ErrNoRows]
          configured_example
    by (simp add: example_store_eq example_db_def active_def)
  have 3: "Find broken_store ''abc'' = (None, False, Some (ErrDriver ''connection refused''))"
    using Find_absent_or_failed
            [where p = broken_store and token = "''abc''" and m = "''connection refused''"
               and q = "fst (Find_stmt defaultOptions ''abc'')" and args = "[AString ''abc'']"
               and e = "ErrDriver ''connection refused''"]
    by (simp add: broken_store_eq broken_db_def example_db_def)
  from 1 2 3 show ?thesis by simp
qed

section \<open>Find: the payload is nil unless the record exists\<close>

text \<open>
  C10.  Whenever \<open>Find\<close> returns exists = false, with or without an error, the
  payload it returns is the nil slice; a payload other than nil comes only with
  exists = true and a nil error.  An error never comes with exists = true.
\<close>

theorem Find_payload_nil_unless_exists:
  "Find p token = (b, ex, err) \<Longrightarrow>
     (\<not> ex \<longrightarrow> b = None) \<and> (b \<noteq> None \<longrightarrow> ex \<and> err = None) \<and> (err \<noteq> None \<longrightarrow> \<not> ex)"
  by (auto simp add: Find_def Let_def split: prod.splits if_splits)

theorem Find_payload_nil_unless_exists_witness:
  "Find example_store ''abc'' = (Some [1, 2], True, None) \<and>
   fst (Find example_store ''old'') = None \<and>
   fst (Find broken_store ''abc'') = None"
proof -
  have a: "Find example_store ''abc'' = (Some [1, 2], True, None)"
    using configured_example
    by (simp add: Find_running example_store_eq example_db_def active_def)
  have b: "\<not> fst (snd (Find example_store ''old''))"
    using configured_example
    by (simp add: Find_running example_store_eq example_db_def active_def)
  have c: "\<not> fst (snd (Find broken_store ''abc''))"
    by (simp add: Find_failing broken_store_eq broken_db_def example_db_def)
  have b': "Find example_store ''old'' =
              (fst (Find example_store ''old''), fst (snd (Find example_store ''old'')),
               snd (snd (Find example_store ''old'')))"
    by simp
  have c': "Find broken_store ''abc'' =
              (fst (Find broken_store ''abc''), fst (snd (Find broken_store ''abc'')),
               snd (snd (Find broken_store ''abc'')))"
    by simp
  have "fst (Find example_store ''old'') = None"
    using Find_payload_nil_unless_exists [OF b'] b by blast
  moreover have "fst (Find broken_store ''abc'') = None"
    using Find_payload_nil_unless_exists [OF c'] c by blast
  ultimately show ?thesis using a by simp
qed

section \<open>The expiry filter\<close>

text \<open>
  C2.  On a running database with unique tokens, \<open>Find\<close> and \<open>All\<close> return a row
  exactly when the server's clock at the query is strictly before the row's expiry.
  In particular, after a commit with an expiry that is not after the clock, the row is
  in the table but any \<open>Find\<close> from then on returns (nil, false, nil), and \<open>All\<close>
  has no entry for the token.
\<close>

theorem expiry_filter_at_query_time:
  assumes "configured p" and "failure (db p) = None" and "unique_tokens (db p)"
  shows "Find p token =
           (case find (\<lambda>r. s_token r = token) (stored (db p)) of
              None \<Rightarrow> (None, False, None)
            | Some r \<Rightarrow> if current_timestamp (db p) < s_expiry r then (s_data r, True, None)
                        else (None, False, None)) \<and>
         (\<exists>m. All_store p = (Some m, None) \<and>
            (\<forall>t. m t = (case find (\<lambda>r. s_token r = t) (stored (db p)) of
                           None \<Rightarrow> None
                         | Some r \<Rightarrow> if current_timestamp (db p) < s_expiry r then Some (s_data r)
                                     else None))) \<and>
         (expiry \<le> current_timestamp (db p) \<and> current_timestamp (db p) \<le> now \<longrightarrow>
            \<lparr> s_token = token, s_data = b, s_expiry = expiry \<rparr>
              \<in> set (stored (db (at_time now (fst (Commit p token b expiry))))) \<and>
            Find (at_time now (fst (Commit p token b expiry))) token = (None, False, None) \<and>
            (\<exists>m. All_store (at_time now (fst (Commit p token b expiry))) = (Some m, None) \<and>
                  m token = None))"
proof (intro conjI impI)
  show "Find p token =
           (case find (\<lambda>r. s_token r = token) (stored (db p)) of
              None \<Rightarrow> (None, False, None)
            | Some r \<Rightarrow> if current_timestamp (db p) < s_expiry r then (s_data r, True, None)
                        else (None, False, None))"
    using Find_lookup [OF assms, unfolded active_def] by simp
  show "\<exists>m. All_store p = (Some m, None) \<and>
            (\<forall>t. m t = (case find (\<lambda>r. s_token r = t) (stored (db p)) of
                           None \<Rightarrow> None
                         | Some r \<Rightarrow> if current_timestamp (db p) < s_expiry r then Some (s_data r)
                                     else None))"
    using All_store_lookup [OF assms, unfolded active_def] by simp
next
  assume past: "expiry \<le> current_timestamp (db p) \<and> current_timestamp (db p) \<le> now"
  let ?p = "at_time now (fst (Commit p token b expiry))"
  have c: "configured ?p" and f: "failure (db ?p) = None" and u: "unique_tokens (db ?p)"
    using assms
    by (simp_all add: Commit_running configured_def unique_tokens_def upsert_distinct at_time_def)
  have st: "stored (db ?p) = upsert token b expiry (stored (db p))"
    using assms by (simp add: Commit_running at_time_def)
  have fd: "find (\<lambda>r. s_token r = token) (stored (db ?p))
              = Some \<lparr> s_token = token, s_data = b, s_expiry = expiry \<rparr>"
    by (simp add: st upsert_find)
  have na: "\<not> active (db ?p) \<lparr> s_token = token, s_data = b, s_expiry = expiry \<rparr>"
    using past by (simp add: active_def at_time_def)
  from fd show "\<lparr> s_token = token, s_data = b, s_expiry = expiry \<rparr> \<in> set (stored (db ?p))"
    by (auto simp add: find_Some_iff)
  show "Find ?p token = (None, False, None)"
    using Find_lookup [OF c f u, of token] fd na by simp
  show "\<exists>m. All_store ?p = (Some m, None) \<and> m token = None"
    using All_store_lookup [OF c f u] fd na by auto
qed

theorem expiry_filter_at_query_time_witness:
  "Find example_store ''abc'' = (Some [1, 2], True, None) \<and>
   Find example_store ''old'' = (None, False, None) \<and>
   Find (at_time 12 (fst (Commit example_store ''x'' (Some [7]) 9))) ''x'' = (None, False, None)"
proof -
  have 1: "Find example_store ''abc'' = (Some [1, 2], True, None)"
    using expiry_filter_at_query_time
            [OF configured_example running_example unique_example,
             where token = "''abc''" and expiry = 0 and now = 0 and b = None]
    by (simp add: stored_example clock_example)
  have 2: "Find example_store ''old'' = (None, False, None)"
    using expiry_filter_at_query_time
            [OF configured_example running_example unique_example,
             where token = "''old''" and expiry = 0 and now = 0 and b = None]
    by (simp add: stored_example clock_example)
  have 3: "Find (at_time 12 (fst (Commit example_store ''x'' (Some [7]) 9))) ''x''
             = (None, False, None)"
    using expiry_filter_at_query_time
            [OF configured_example running_example unique_example,
             where token = "''x''" and expiry = 9 and now = 12 and b = "Some [7]"]
    by (simp add: clock_example)
  from 1 2 3 show ?thesis by simp
qed

section \<open>Commit\<close>

text \<open>
  C3.  On a running database with unique tokens, \<open>Commit\<close> returns a nil error and
  either appends a row for a new token or replaces the data and the expiry of the
  token's row together, whatever they were.  After two commits of one token the table
  holds one row for it, with the second payload, and \<open>Find\<close> returns the second
  payload (when its expiry is after the clock).  Repeating a commit with the same
  arguments changes nothing.
\<close>

theorem Commit_upserts:
  assumes "configured p" and "failure (db p) = None" and "unique_tokens (db p)"
  shows "Commit p token b expiry =
           (p\<lparr> db := (db p)\<lparr> stored :=
                  (if token \<in> s_token ` set (stored (db p))
                   then map (\<lambda>r. if s_token r = token
                                  then \<lparr> s_token = token, s_data = b, s_expiry = expiry \<rparr>
                                  else r) (stored (db p))
                   else stored (db p) @ [\<lparr> s_token = token, s_data = b, s_expiry = expiry \<rparr>]) \<rparr> \<rparr>,
            None) \<and>
         filter (\<lambda>r. s_token r = token)
           (stored (db (fst (Commit (fst (Commit p token b1 e1)) token b2 e2))))
           = [\<lparr> s_token = token, s_data = b2, s_expiry = e2 \<rparr>] \<and>
         Find (fst (Commit (fst (Commit p token b1 e1)) token b2 e2)) token =
           (if current_timestamp (db p) < e2 then (b2, True, None) else (None, False, None)) \<and>
         Commit (fst (Commit p token b expiry)) token b expiry =
           (fst (Commit p token b expiry), None)"
proof (intro conjI)
  show "Commit p token b expiry =
           (p\<lparr> db := (db p)\<lparr> stored :=
                  (if token \<in> s_token ` set (stored (db p))
                   then map (\<lambda>r. if s_token r = token
                                  then \<lparr> s_token = token, s_data = b, s_expiry = expiry \<rparr>
                                  else r) (stored (db p))
                   else stored (db p) @ [\<lparr> s_token = token, s_data = b, s_expiry = expiry \<rparr>]) \<rparr> \<rparr>,
            None)"
  proof (cases "token \<in> s_token ` set (stored (db p))")
    case True
    then have "upsert token b expiry (stored (db p)) =
                 map (\<lambda>r. if s_token r = token
                           then \<lparr> s_token = token, s_data = b, s_expiry = expiry \<rparr>
                           else r) (stored (db p))"
      using assms(3) by (simp add: upsert_existing unique_tokens_def)
    with True show ?thesis using assms(1,2) by (simp add: Commit_running)
  next
    case False
    then have "upsert token b expiry (stored (db p)) =
                 stored (db p) @ [\<lparr> s_token = token, s_data = b, s_expiry = expiry \<rparr>]"
      by (simp add: upsert_new)
    with False show ?thesis using assms(1,2) by (simp add: Commit_running)
  qed
next
  let ?p1 = "fst (Commit p token b1 e1)"
  let ?p2 = "fst (Commit ?p1 token b2 e2)"
  have c1: "configured ?p1" and f1: "failure (db ?p1) = None" and u1: "unique_tokens (db ?p1)"
    using assms
    by (simp_all add: Commit_running configured_def unique_tokens_def upsert_distinct)
  have c2: "configured ?p2" and f2: "failure (db ?p2) = None" and u2: "unique_tokens (db ?p2)"
    using c1 f1 u1
    by (simp_all add: Commit_running configured_def unique_tokens_def upsert_distinct)
  have st: "stored (db ?p2) = upsert token b2 e2 (stored (db p))"
    using assms c1 f1 by (simp add: Commit_running upsert_twice)
  have ck: "current_timestamp (db ?p2) = current_timestamp (db p)"
    using assms c1 f1 by (simp add: Commit_running)
  have fd: "find (\<lambda>r. s_token r = token) (stored (db ?p2))
              = Some \<lparr> s_token = token, s_data = b2, s_expiry = e2 \<rparr>"
    by (simp add: st upsert_find)
  from u2 have "distinct (map s_token (stored (db ?p2)))"
    by (simp add: unique_tokens_def)
  from filter_token [OF this, of token "\<lambda>r. True"] fd
  show "filter (\<lambda>r. s_token r = token) (stored (db ?p2))
          = [\<lparr> s_token = token, s_data = b2, s_expiry = e2 \<rparr>]"
    by simp
  show "Find ?p2 token =
          (if current_timestamp (db p) < e2 then (b2, True, None) else (None, False, None))"
    using Find_lookup [OF c2 f2 u2, of token] fd ck by (simp add: active_def)
next
  let ?p1 = "fst (Commit p token b expiry)"
  have c1: "configured ?p1" and f1: "failure (db ?p1) = None"
    using assms by (simp_all add: Commit_running configured_def)
  have s1: "stored (db ?p1) = upsert token b expiry (stored (db p))"
    using assms by (simp add: Commit_running)
  have again: "upsert token b expiry (stored (db ?p1)) = stored (db ?p1)"
    by (simp add: s1 upsert_twice)
  have "Commit ?p1 token b expiry =
          (?p1\<lparr> db := (db ?p1)\<lparr> stored := upsert token b expiry (stored (db ?p1)) \<rparr> \<rparr>, None)"
    using c1 f1 by (rule Commit_running)
  then show "Commit ?p1 token b expiry = (?p1, None)"
    by (simp only: again) simp
qed

theorem Commit_upserts_witness:
  "stored (db (fst (Commit example_store ''new'' (Some [9]) 50))) =
     stored (db example_store) @ [\<lparr> s_token = ''new'', s_data = Some [9], s_expiry = 50 \<rparr>] \<and>
   stored (db (fst (Commit example_store ''old'' (Some [9]) 50))) =
     [\<lparr> s_token = ''abc'', s_data = Some [1, 2], s_expiry = 100 \<rparr>,
      \<lparr> s_token = ''old'', s_data = Some [9], s_expiry = 50 \<rparr>] \<and>
   Find (fst (Commit (fst (Commit example_store ''abc'' (Some [4]) 20)) ''abc'' (Some [5]) 30)) ''abc''
     = (Some [5], True, None)"
proof -
  note inst = Commit_upserts [OF configured_example running_example unique_example]
  have 1: "stored (db (fst (Commit example_store ''new'' (Some [9]) 50))) =
     stored (db example_store) @ [\<lparr> s_token = ''new'', s_data = Some [9], s_expiry = 50 \<rparr>]"
    using inst [where token = "''new''" and b = "Some [9]" and expiry = 50
                 and ?b1.0 = None and ?e1.0 = 0 and ?b2.0 = None and ?e2.0 = 0]
    by (simp add: stored_example)
  have 2: "stored (db (fst (Commit example_store ''old'' (Some [9]) 50))) =
     [\<lparr> s_token = ''abc'', s_data = Some [1, 2], s_expiry = 100 \<rparr>,
      \<lparr> s_token = ''old'', s_data = Some [9], s_expiry = 50 \<rparr>]"
    using inst [where token = "''old''" and b = "Some [9]" and expiry = 50
                 and ?b1.0 = None and ?e1.0 = 0 and ?b2.0 = None and ?e2.0 = 0]
    by (simp add: stored_example)
  have 3: "Find (fst (Commit (fst (Commit example_store ''abc'' (Some [4]) 20)) ''abc'' (Some [5]) 30)) ''abc''
     = (Some [5], True, None)"
    using inst [where token = "''abc''" and b = None and expiry = 0
                 and ?b1.0 = "Some [4]" and ?e1.0 = 20 and ?b2.0 = "Some [5]" and ?e2.0 = 30]
    by (simp add: clock_example)
  from 1 2 3 show ?thesis by simp
qed

section \<open>All\<close>

text \<open>
  C4.  On a running database with unique tokens, \<open>All\<close> returns a non-nil map and a
  nil error; the keys of the map are exactly the tokens of the rows whose expiry is
  after the server's clock, each mapped to its row's data; rows that have expired but
  are still stored are left out.  When no row is active the map is empty.
\<close>

theorem All_store_active_rows:
  assumes "configured p" and "failure (db p) = None" and "unique_tokens (db p)"
  shows "\<exists>m. All_store p = (Some m, None) \<and>
           dom m = s_token ` set (filter (\<lambda>r. current_timestamp (db p) < s_expiry r) (stored (db p))) \<and>
           (\<forall>r \<in> set (stored (db p)).
              current_timestamp (db p) < s_expiry r \<longrightarrow> m (s_token r) = Some (s_data r)) \<and>
           ((\<forall>r \<in> set (stored (db p)). \<not> current_timestamp (db p) < s_expiry r)
              \<longrightarrow> m = Map.empty)"
proof -
  let ?rs = "stored (db p)" and ?now = "current_timestamp (db p)"
  from assms(3) have d: "distinct (map s_token ?rs)"
    by (simp add: unique_tokens_def)
  obtain m where res: "All_store p = (Some m, None)"
    and look: "\<And>t. m t = (case find (\<lambda>r. s_token r = t) ?rs of
                             None \<Rightarrow> None
                           | Some r \<Rightarrow> if ?now < s_expiry r then Some (s_data r) else None)"
    using All_store_lookup [OF assms, unfolded active_def] by blast
  have val: "m (s_token r) = Some (s_data r)" if "r \<in> set ?rs" and "?now < s_expiry r" for r
  proof -
    have "find (\<lambda>x. s_token x = s_token r) ?rs = Some r"
      using d that(1) by (rule find_unique)
    then show ?thesis using that(2) by (simp add: look)
  qed
  have origin: "\<exists>r. r \<in> set ?rs \<and> s_token r = t \<and> ?now < s_expiry r" if "m t = Some v" for t v
  proof (cases "find (\<lambda>r. s_token r = t) ?rs")
    case None
    with that show ?thesis by (simp add: look)
  next
    case (Some r)
    then have mem: "r \<in> set ?rs \<and> s_token r = t" by (rule find_member)
    have "?now < s_expiry r"
    proof (rule ccontr)
      assume "\<not> ?now < s_expiry r"
      with Some have "m t = None" by (simp add: look)
      with that show False by simp
    qed
    with mem show ?thesis by blast
  qed
  have dm: "dom m = s_token ` set (filter (\<lambda>r. ?now < s_expiry r) ?rs)"
  proof (rule set_eqI, rule iffI)
    fix t assume "t \<in> dom m"
    then obtain v where "m t = Some v" by (auto simp only: dom_def mem_Collect_eq)
    from origin [OF this] obtain r where "r \<in> set ?rs" and tk: "s_token r = t"
      and "?now < s_expiry r" by blast
    then have "r \<in> set (filter (\<lambda>r. ?now < s_expiry r) ?rs)" by simp
    then have "s_token r \<in> s_token ` set (filter (\<lambda>r. ?now < s_expiry r) ?rs)"
      by (rule imageI)
    with tk show "t \<in> s_token ` set (filter (\<lambda>r. ?now < s_expiry r) ?rs)" by simp
  next
    fix t assume "t \<in> s_token ` set (filter (\<lambda>r. ?now < s_expiry r) ?rs)"
    then obtain r where r: "r \<in> set (filter (\<lambda>r. ?now < s_expiry r) ?rs)" and tk: "t = s_token r"
      by (rule imageE)
    from r have "r \<in> set ?rs" and "?now < s_expiry r" by simp_all
    then have "m (s_token r) = Some (s_data r)" by (rule val)
    with tk show "t \<in> dom m" by (simp add: domI)
  qed
  have emp: "m = Map.empty" if none: "\<forall>r \<in> set ?rs. \<not> ?now < s_expiry r"
  proof (rule ext)
    fix t
    show "m t = None"
    proof (cases "m t")
      case None
      then show ?thesis .
    next
      case (Some v)
      from origin [OF this] obtain r where "r \<in> set ?rs" and "?now < s_expiry r" by blast
      with none show ?thesis by blast
    qed
  qed
  have v': "\<forall>r \<in> set ?rs. ?now < s_expiry r \<longrightarrow> m (s_token r) = Some (s_data r)"
    using val by blast
  have e': "(\<forall>r \<in> set ?rs. \<not> ?now < s_expiry r) \<longrightarrow> m = Map.empty"
    using emp by (rule impI)
  from res dm v' e' show ?thesis
    by (intro exI [of _ m] conjI)
qed

theorem All_store_active_rows_witness:
  "(\<exists>m. All_store example_store = (Some m, None) \<and> dom m = {''abc''} \<and>
        m ''abc'' = Some (Some [1, 2]) \<and> m ''old'' = None) \<and>
   All_store (at_time 200 example_store) = (Some Map.empty, None)"
proof
  show "\<exists>m. All_store example_store = (Some m, None) \<and> dom m = {''abc''} \<and>
          m ''abc'' = Some (Some [1, 2]) \<and> m ''old'' = None"
  proof -
    obtain m where res: "All_store example_store = (Some m, None)"
      and d: "dom m = s_token ` set (filter (\<lambda>r. current_timestamp (db example_store) < s_expiry r)
                                       (stored (db example_store)))"
      and v: "\<forall>r \<in> set (stored (db example_store)).
                current_timestamp (db example_store) < s_expiry r \<longrightarrow> m (s_token r) = Some (s_data r)"
      using All_store_active_rows [OF configured_example running_example unique_example]
      by blast
    have d': "dom m = {''abc''}"
      using d by (simp add: stored_example clock_example)
    have a: "m ''abc'' = Some (Some [1, 2])"
      using v by (simp add: stored_example clock_example)
    have "''old'' \<notin> dom m"
      by (simp add: d')
    then have b: "m ''old'' = None"
      by (simp add: domIff)
    from res d' a b show ?thesis
      by (intro exI [of _ m] conjI)
  qed
next
  show "All_store (at_time 200 example_store) = (Some Map.empty, None)"
  proof -
    let ?p = "at_time 200 example_store"
    have c: "configured ?p"
      using configured_example by (simp add: configured_at_time)
    have f: "failure (db ?p) = None"
      by (simp add: at_time_def running_example)
    have u: "unique_tokens (db ?p)"
      using unique_example by (simp add: at_time_def unique_tokens_def)
    obtain m where res: "All_store ?p = (Some m, None)"
      and e: "(\<forall>r \<in> set (stored (db ?p)). \<not> current_timestamp (db ?p) < s_expiry r)
                \<longrightarrow> m = Map.empty"
      using All_store_active_rows [OF c f u] by blast
    have "\<forall>r \<in> set (stored (db ?p)). \<not> current_timestamp (db ?p) < s_expiry r"
      by (simp add: at_time_def stored_example)
    with e have "m = Map.empty" by (rule mp)
    with res show ?thesis by simp
  qed
qed

section \<open>Delete\<close>

text \<open>
  C5.  On a running database, \<open>Delete\<close> returns a nil error and removes the rows
  with the token; when there is no such row the store is unchanged and the error is
  still nil.  After it no row has the token, and \<open>Find\<close> of the token returns
  exists = false, at once and at any later time.
\<close>

theorem Delete_removes:
  assumes "configured p" and "failure (db p) = None"
  shows "Delete p token =
           (p\<lparr> db := (db p)\<lparr> stored := filter (\<lambda>r. s_token r \<noteq> token) (stored (db p)) \<rparr> \<rparr>,
            None) \<and>
         (token \<notin> s_token ` set (stored (db p)) \<longrightarrow> Delete p token = (p, None)) \<and>
         token \<notin> s_token ` set (stored (db (fst (Delete p token)))) \<and>
         Find (at_time now (fst (Delete p token))) token = (None, False, None) \<and>
         Find (fst (Delete p token)) token = (None, False, None)"
proof (intro conjI impI)
  show del: "Delete p token =
           (p\<lparr> db := (db p)\<lparr> stored := filter (\<lambda>r. s_token r \<noteq> token) (stored (db p)) \<rparr> \<rparr>,
            None)"
    using assms by (rule Delete_running)
  show "token \<notin> s_token ` set (stored (db (fst (Delete p token))))"
    by (auto simp add: del)
  have none: "filter (\<lambda>r. s_token r = token \<and> P r) (stored (db (fst (Delete p token)))) = []" for P
    by (auto simp add: del filter_empty_conv)
  have c: "configured (fst (Delete p token))" and f: "failure (db (fst (Delete p token))) = None"
    using assms by (simp_all add: del configured_def)
  show "Find (fst (Delete p token)) token = (None, False, None)"
    by (simp add: Find_running [OF c f] none)
  have c': "configured (at_time now (fst (Delete p token)))"
    and f': "failure (db (at_time now (fst (Delete p token)))) = None"
    using c f by (simp_all add: configured_def at_time_def)
  have "stored (db (at_time now (fst (Delete p token)))) = stored (db (fst (Delete p token)))"
    by (simp add: at_time_def)
  then show "Find (at_time now (fst (Delete p token))) token = (None, False, None)"
    by (simp add: Find_running [OF c' f'] none)
next
  assume "token \<notin> s_token ` set (stored (db p))"
  then have "filter (\<lambda>r. s_token r \<noteq> token) (stored (db p)) = stored (db p)"
    by (auto simp add: filter_id_conv)
  then show "Delete p token = (p, None)"
    using assms by (simp add: Delete_running)
qed

theorem Delete_removes_witness:
  "Delete example_store ''never'' = (example_store, None) \<and>
   snd (Delete example_store ''abc'') = None \<and>
   stored (db (fst (Delete example_store ''abc''))) =
     [\<lparr> s_token = ''old'', s_data = Some [3], s_expiry = 5 \<rparr>] \<and>
   Find (fst (Delete example_store ''abc'')) ''abc'' = (None, False, None)"
proof -
  note inst = Delete_removes [OF configured_example running_example]
  have 1: "Delete example_store ''never'' = (example_store, None)"
    using inst [where token = "''never''" and now = 0] by (simp add: stored_example)
  have i: "Delete example_store ''abc'' =
             (example_store\<lparr> db := (db example_store)\<lparr> stored :=
                filter (\<lambda>r. s_token r \<noteq> ''abc'') (stored (db example_store)) \<rparr> \<rparr>, None)"
    using inst [where token = "''abc''" and now = 0] by (rule conjunct1)
  have 4: "Find (fst (Delete example_store ''abc'')) ''abc'' = (None, False, None)"
    using inst [where token = "''abc''" and now = 0, THEN conjunct2, THEN conjunct2,
                THEN conjunct2, THEN conjunct2] .
  have 2: "snd (Delete example_store ''abc'') = None"
    by (simp add: i)
  have 3: "stored (db (fst (Delete example_store ''abc''))) =
              [\<lparr> s_token = ''old'', s_data = Some [3], s_expiry = 5 \<rparr>]"
    by (simp add: i stored_example)
  from 1 2 3 4 show ?thesis by simp
qed

section \<open>New\<close>

text \<open>
  C8.  \<open>New\<close> starts the cleanup goroutine exactly when the configured cleanup
  interval, after the options are applied, is greater than zero as a signed value; with
  an interval of zero no goroutine is started.  The default interval is five minutes
  (300000000000 nanoseconds), so \<open>New\<close> without options starts the goroutine.
\<close>

theorem New_spawns_cleanup:
  "snd (New d options) =
     (if 0 <s cleanupInterval (apply_options options defaultOptions)
      then Spawned (cleanupInterval (apply_options options defaultOptions))
      else NotSpawned) \<and>
   (snd (New d options) \<noteq> NotSpawned) =
     (0 <s cleanupInterval (opts (fst (New d options)))) \<and>
   opts (fst (New d options)) = apply_options options defaultOptions \<and>
   stopCleanup (fst (New d options)) = None \<and>
   snd (NewWithCleanupInterval d 0) = NotSpawned \<and>
   snd (New d []) = Spawned (5 * Minute) \<and>
   sint (cleanupInterval defaultOptions) = 5 * 60 * 1000000000"
proof (intro conjI)
  show "snd (New d options) =
     (if 0 <s cleanupInterval (apply_options options defaultOptions)
      then Spawned (cleanupInterval (apply_options options defaultOptions))
      else NotSpawned)"
    by (simp add: New_def Let_def)
  show "(snd (New d options) \<noteq> NotSpawned) =
     (0 <s cleanupInterval (opts (fst (New d options))))"
    by (simp add: New_def Let_def)
  show "opts (fst (New d options)) = apply_options options defaultOptions"
    by (simp add: New_def Let_def)
  show "stopCleanup (fst (New d options)) = None"
    by (simp add: New_def Let_def)
  show "snd (NewWithCleanupInterval d 0) = NotSpawned"
    by (simp add: NewWithCleanupInterval_def WithCleanupInterval_def New_def Let_def)
  show "snd (New d []) = Spawned (5 * Minute)"
    by (simp add: New_def Let_def defaultOptions_def Minute_def word_sless_alt)
  show "sint (cleanupInterval defaultOptions) = 5 * 60 * 1000000000"
    by (simp add: defaultOptions_def Minute_def)
qed

section \<open>Statement texts and bound operands\<close>

text \<open>
  C9.  The statement text that \<open>Find\<close>, \<open>Commit\<close>, \<open>Delete\<close> and
  \<open>deleteExpired\<close> hand to the driver is built from the configured table and column
  names only: for one configuration it is the same text for any two tokens, payloads
  and expiry values.  Token, payload and expiry are passed as the operands bound to
  \<^verbatim>\<open>$1\<close>, \<^verbatim>\<open>$2\<close>, \<^verbatim>\<open>$3\<close>.
\<close>

theorem statement_texts_fixed_by_configuration:
  "Find_stmt os token =
     (''SELECT '' @ dataColumnName os @ '' FROM '' @ sessionTableName os @ '' WHERE ''
        @ tokenColumnName os @ '' = $1 AND current_timestamp < '' @ expiryColumnName os,
      [AString token]) \<and>
   Commit_stmt os token b expiry =
     (''INSERT INTO '' @ sessionTableName os @ '' ('' @ tokenColumnName os @ '', ''
        @ dataColumnName os @ '', '' @ expiryColumnName os
        @ '') VALUES ($1, $2, $3) ON CONFLICT ('' @ tokenColumnName os
        @ '') DO UPDATE SET '' @ dataColumnName os @ '' = EXCLUDED.'' @ dataColumnName os
        @ '', '' @ expiryColumnName os @ '' = EXCLUDED.'' @ expiryColumnName os,
      [AString token, ABytes b, ATime expiry]) \<and>
   Delete_stmt os token =
     (''DELETE FROM '' @ sessionTableName os @ '' WHERE '' @ tokenColumnName os @ '' = $1'',
      [AString token]) \<and>
   deleteExpired_stmt os =
     (''DELETE FROM '' @ sessionTableName os @ '' WHERE '' @ expiryColumnName os
        @ '' < current_timestamp'', []) \<and>
   fst (Find_stmt os token) = fst (Find_stmt os token') \<and>
   fst (Commit_stmt os token b expiry) = fst (Commit_stmt os token' b' expiry') \<and>
   fst (Delete_stmt os token) = fst (Delete_stmt os token')"
proof (intro conjI)
  show "Find_stmt os token =
     (''SELECT '' @ dataColumnName os @ '' FROM '' @ sessionTableName os @ '' WHERE ''
        @ tokenColumnName os @ '' = $1 AND current_timestamp < '' @ expiryColumnName os,
      [AString token])"
    by (simp add: Find_stmt_def)
  show "Commit_stmt os token b expiry =
     (''INSERT INTO '' @ sessionTableName os @ '' ('' @ tokenColumnName os @ '', ''
        @ dataColumnName os @ '', '' @ expiryColumnName os
        @ '') VALUES ($1, $2, $3) ON CONFLICT ('' @ tokenColumnName os
        @ '') DO UPDATE SET '' @ dataColumnName os @ '' = EXCLUDED.'' @ dataColumnName os
        @ '', '' @ expiryColumnName os @ '' = EXCLUDED.'' @ expiryColumnName os,
      [AString token, ABytes b, ATime expiry])"
    by (simp add: Commit_stmt_def)
  show "Delete_stmt os token =
     (''DELETE FROM '' @ sessionTableName os @ '' WHERE '' @ tokenColumnName os @ '' = $1'',
      [AString token])"
    by (simp add: Delete_stmt_def)
  show "deleteExpired_stmt os =
     (''DELETE FROM '' @ sessionTableName os @ '' WHERE '' @ expiryColumnName os
        @ '' < current_timestamp'', [])"
    by (simp add: deleteExpired_stmt_def)
  show "fst (Find_stmt os token) = fst (Find_stmt os token')"
    by (simp add: Find_stmt_def)
  show "fst (Commit_stmt os token b expiry) = fst (Commit_stmt os token' b' expiry')"
    by (simp add: Commit_stmt_def)
  show "fst (Delete_stmt os token) = fst (Delete_stmt os token')"
    by (simp add: Delete_stmt_def)
qed

section \<open>Steps of the cleanup loop\<close>

lemma deleteExpired_failing:
  "failure (db p) = Some m \<Longrightarrow> deleteExpired p = (p, Some (ErrDriver m))"
  by (simp add: deleteExpired_def Exec_def split: prod.splits)

lemma deleteExpired_keeps_channel:
  "stopCleanup (fst (deleteExpired p)) = stopCleanup p"
  by (simp add: deleteExpired_def split: prod.splits)

lemma Tick_step:
  assumes "cleanup s = Selecting interval"
  shows "step Tick s =
           Some (s\<lparr> store := fst (deleteExpired (store s)),
                   logged := (case snd (deleteExpired (store s)) of
                                None \<Rightarrow> logged s | Some e \<Rightarrow> logged s @ [e]) \<rparr>)"
  using assms by (simp add: split_beta)

lemma Tick_failing:
  assumes "cleanup s = Selecting interval" and "failure (db (store s)) = Some m"
  shows "step Tick s = Some (s\<lparr> logged := logged s @ [ErrDriver m] \<rparr>)"
  using assms by (simp add: Tick_step [OF assms(1)] deleteExpired_failing del: step.simps)

lemma Ticks_failing:
  assumes "cleanup s = Selecting interval" and "failure (db (store s)) = Some m"
  shows "run (replicate n Tick) s = Some (s\<lparr> logged := logged s @ replicate n (ErrDriver m) \<rparr>)"
  using assms
proof (induction n arbitrary: s)
  case 0
  then show ?case by simp
next
  case (Suc n)
  let ?s = "s\<lparr> logged := logged s @ [ErrDriver m] \<rparr>"
  have st: "step Tick s = Some ?s"
    using Suc.prems by (rule Tick_failing)
  have "run (replicate n Tick) ?s = Some (?s\<lparr> logged := logged ?s @ replicate n (ErrDriver m) \<rparr>)"
    using Suc.prems by (intro Suc.IH) simp_all
  then show ?case
    by (simp del: step.simps add: st)
qed

lemma broken_failure: "failure (db broken_store) = Some ''connection refused''"
  by (simp add: broken_store_eq broken_db_def)

section \<open>A failing cleanup tick\<close>

text \<open>
  C7.  With the loop waiting in its \<^verbatim>\<open>select\<close>, a tick whose bulk delete returns an
  error prints the error and leaves the loop waiting in the \<^verbatim>\<open>select\<close>, where the
  next tick can be taken; no caller's state and nothing else of the program changes.
  Over a connection that keeps failing, any number of ticks run, each printing its
  error.
\<close>

theorem cleanup_failure_logged_not_propagated:
  assumes "cleanup s = Selecting interval"
  shows "(snd (deleteExpired (store s)) = Some e \<longrightarrow>
            (\<exists>s'. step Tick s = Some s' \<and> logged s' = logged s @ [e] \<and>
                   cleanup s' = Selecting interval \<and> callers s' = callers s \<and>
                   stopCleanup (store s') = stopCleanup (store s) \<and>
                   step Tick s' \<noteq> None)) \<and>
         (failure (db (store s)) = Some m \<longrightarrow>
            step Tick s = Some (s\<lparr> logged := logged s @ [ErrDriver m] \<rparr>) \<and>
            run (replicate n Tick) s =
              Some (s\<lparr> logged := logged s @ replicate n (ErrDriver m) \<rparr>))"
proof (intro conjI impI)
  assume e: "snd (deleteExpired (store s)) = Some e"
  let ?s = "s\<lparr> store := fst (deleteExpired (store s)), logged := logged s @ [e] \<rparr>"
  have "step Tick s = Some ?s"
    unfolding Tick_step [OF assms] e by simp
  moreover have "logged ?s = logged s @ [e]" by simp
  moreover have "cleanup ?s = Selecting interval" using assms by simp
  moreover have "callers ?s = callers s" by simp
  moreover have "stopCleanup (store ?s) = stopCleanup (store s)"
    by (simp add: deleteExpired_keeps_channel)
  moreover have "step Tick ?s \<noteq> None"
    using assms by (simp add: Tick_step [of _ interval] del: step.simps)
  ultimately show "\<exists>s'. step Tick s = Some s' \<and> logged s' = logged s @ [e] \<and>
                   cleanup s' = Selecting interval \<and> callers s' = callers s \<and>
                   stopCleanup (store s') = stopCleanup (store s) \<and>
                   step Tick s' \<noteq> None"
    by (intro exI [of _ ?s] conjI)
next
  assume f: "failure (db (store s)) = Some m"
  show "step Tick s = Some (s\<lparr> logged := logged s @ [ErrDriver m] \<rparr>)"
    using assms f by (rule Tick_failing)
  show "run (replicate n Tick) s =
              Some (s\<lparr> logged := logged s @ replicate n (ErrDriver m) \<rparr>)"
    using assms f by (rule Ticks_failing)
qed

theorem cleanup_failure_logged_not_propagated_witness:
  "run [Tick, Tick] broken_system =
     Some (broken_system\<lparr> logged := [ErrDriver ''connection refused'',
                                      ErrDriver ''connection refused''] \<rparr>)"
proof -
  have c: "cleanup broken_system = Selecting (5 * Minute)"
    by (simp add: broken_system_def)
  have f: "failure (db (store broken_system)) = Some ''connection refused''"
    by (simp add: broken_system_def broken_failure)
  have l: "logged broken_system = []"
    by (simp add: broken_system_def)
  have "run (replicate 2 Tick) broken_system =
          Some (broken_system\<lparr> logged := logged broken_system
                                    @ replicate 2 (ErrDriver ''connection refused'') \<rparr>)"
    using cleanup_failure_logged_not_propagated
            [OF c, where m = "''connection refused''" and n = 2 and e = ErrNoRows] f
    by (rule_tac conjunct2 [THEN mp, THEN conjunct2])
  then show ?thesis
    by (simp add: l numeral_2_eq_2)
qed

section \<open>Runs of the stop signal\<close>

lemma New_default:
  "New d [] = (\<lparr> db = d, stopCleanup = None, opts = defaultOptions \<rparr>, Spawned (5 * Minute))"
  by (simp add: New_def Let_def defaultOptions_def Minute_def word_sless_alt)

lemma New_zero:
  "NewWithCleanupInterval d 0 =
     (\<lparr> db = d, stopCleanup = None, opts = defaultOptions\<lparr> cleanupInterval := 0 \<rparr> \<rparr>, NotSpawned)"
  by (simp add: NewWithCleanupInterval_def WithCleanupInterval_def New_def Let_def)

lemma started_eq:
  "started = \<lparr> store = example_store, cleanup = Spawned (5 * Minute), logged = [],
               callers = [Entered, Entered] \<rparr>"
  by (simp add: started_def boot_def New_default example_store_eq)

lemma step_after_exit:
  assumes "cleanup s = Exited" and "k < length (callers s)" and "callers s ! k = Sending"
    and "step ev s = Some s'"
  shows "cleanup s' = Exited \<and> k < length (callers s') \<and> callers s' ! k = Sending"
proof (cases ev)
  case MakeChan
  with assms show ?thesis by simp
next
  case Tick
  with assms show ?thesis by simp
next
  case (Test j)
  with assms(4) have j: "j < length (callers s)" "callers s ! j = Entered"
    and s': "s' = s\<lparr> callers := (callers s)
               [j := (if stopCleanup (store s) \<noteq> None then Sending else Returned)] \<rparr>"
    by (auto split: if_splits)
  from j assms(3) have "j \<noteq> k" by auto
  with assms(1,2,3) show ?thesis by (simp add: s')
next
  case (Handoff j)
  with assms show ?thesis by (simp split: if_splits)
qed

lemma run_after_exit:
  assumes "cleanup s = Exited" and "k < length (callers s)" and "callers s ! k = Sending"
    and "run es s = Some s'"
  shows "cleanup s' = Exited \<and> k < length (callers s') \<and> callers s' ! k = Sending"
  using assms
proof (induction es arbitrary: s)
  case Nil
  then show ?case by simp
next
  case (Cons ev es)
  from Cons.prems(4) obtain s1 where st: "step ev s = Some s1" and rest: "run es s1 = Some s'"
    by (auto split: option.splits)
  from step_after_exit [OF Cons.prems(1,2,3) st]
  have "cleanup s1 = Exited" and "k < length (callers s1)" and "callers s1 ! k = Sending"
    by simp_all
  then show ?case using rest by (rule Cons.IH)
qed

lemma step_exited:
  assumes "cleanup s = Exited" and "step ev s = Some s'"
  shows "cleanup s' = Exited"
proof (cases ev)
  case MakeChan
  with assms show ?thesis by simp
next
  case Tick
  with assms show ?thesis by simp
next
  case (Test j)
  with assms show ?thesis by (auto split: if_splits)
next
  case (Handoff j)
  with assms show ?thesis by (simp split: if_splits)
qed

lemma run_exited:
  assumes "cleanup s = Exited" and "run es s = Some s'"
  shows "cleanup s' = Exited"
  using assms
proof (induction es arbitrary: s)
  case Nil
  then show ?case by simp
next
  case (Cons ev es)
  from Cons.prems(2) obtain s1 where st: "step ev s = Some s1" and rest: "run es s1 = Some s'"
    by (auto split: option.splits)
  from Cons.prems(1) st have "cleanup s1 = Exited" by (rule step_exited)
  then show ?case using rest by (rule Cons.IH)
qed

lemma step_not_spawned:
  assumes "cleanup s = NotSpawned" and "stopCleanup (store s) = None"
    and "Sending \<notin> set (callers s)" and "step ev s = Some s'"
  shows "cleanup s' = NotSpawned \<and> store s' = store s \<and> logged s' = logged s \<and>
         Sending \<notin> set (callers s')"
proof (cases ev)
  case MakeChan
  with assms show ?thesis by simp
next
  case Tick
  with assms show ?thesis by simp
next
  case (Test j)
  with assms(2,4) have s': "s' = s\<lparr> callers := (callers s)[j := Returned] \<rparr>"
    by (auto split: if_splits)
  have "set ((callers s)[j := Returned]) \<subseteq> insert Returned (set (callers s))"
    by (rule set_update_subset_insert)
  with assms(3) have "Sending \<notin> set ((callers s)[j := Returned])" by auto
  with assms(1) show ?thesis by (simp add: s')
next
  case (Handoff j)
  with assms(1,4) show ?thesis by (simp split: if_splits)
qed

lemma run_not_spawned:
  assumes "cleanup s = NotSpawned" and "stopCleanup (store s) = None"
    and "Sending \<notin> set (callers s)" and "run es s = Some s'"
  shows "cleanup s' = NotSpawned \<and> store s' = store s \<and> logged s' = logged s \<and>
         Sending \<notin> set (callers s')"
  using assms
proof (induction es arbitrary: s)
  case Nil
  then show ?case by simp
next
  case (Cons ev es)
  from Cons.prems(4) obtain s1 where st: "step ev s = Some s1" and rest: "run es s1 = Some s'"
    by (auto split: option.splits)
  from step_not_spawned [OF Cons.prems(1,2,3) st]
  have 1: "cleanup s1 = NotSpawned" and 2: "store s1 = store s" and 3: "logged s1 = logged s"
    and 4: "Sending \<notin> set (callers s1)"
    by simp_all
  from 2 Cons.prems(2) have 5: "stopCleanup (store s1) = None" by simp
  from Cons.IH [OF 1 5 4 rest] 2 3 show ?case by simp
qed

lemma never_started_eq:
  "never_started =
     \<lparr> store = \<lparr> db = example_db, stopCleanup = None,
                 opts = defaultOptions\<lparr> cleanupInterval := 0 \<rparr> \<rparr>,
       cleanup = NotSpawned, logged = [], callers = [Entered, Entered] \<rparr>"
  by (simp add: never_started_def boot_def New_zero)

lemma run_started:
  "run [MakeChan, Test 0, Handoff 0, Test 1] started = Some blocked"
  by (simp add: started_eq blocked_def)

section \<open>StopCleanup\<close>

text \<open>
  C6, as the code has it.  \<open>StopCleanup\<close> returns at once and changes nothing else
  when the stop channel is nil; when no cleanup loop was started (the interval is not
  greater than zero) the channel stays nil for ever, so every call returns.  When the
  loop waits in its \<^verbatim>\<open>select\<close>, the send of one caller is received: that caller
  returns and the loop returns; once the loop has returned it stays so and no send is
  received again.
  A caller that is at the send when the loop has returned stays there in every run.
\<close>

theorem StopCleanup_delivery:
  "(k < length (callers s) \<and> callers s ! k = Entered \<and> stopCleanup (store s) = None \<longrightarrow>
      step (Test k) s = Some (s\<lparr> callers := (callers s)[k := Returned] \<rparr>)) \<and>
   (\<not> 0 <s cleanupInterval (apply_options options defaultOptions) \<and> Sending \<notin> set cs \<and>
      run es (boot (New d options) cs) = Some s1 \<longrightarrow>
      cleanup s1 = NotSpawned \<and> store s1 = fst (New d options) \<and>
      stopCleanup (store s1) = None \<and> logged s1 = [] \<and> Sending \<notin> set (callers s1)) \<and>
   (k < length (callers s) \<and> callers s ! k = Sending \<and> cleanup s = Selecting interval \<longrightarrow>
      step (Handoff k) s =
        Some (s\<lparr> cleanup := Exited, callers := (callers s)[k := Returned] \<rparr>)) \<and>
   (cleanup s = Exited \<and> run es s = Some s3 \<longrightarrow>
      cleanup s3 = Exited \<and> step (Handoff j) s3 = None) \<and>
   (k < length (callers s) \<and> callers s ! k = Sending \<and> cleanup s = Exited \<and>
      run es s = Some s2 \<longrightarrow>
      cleanup s2 = Exited \<and> callers s2 ! k = Sending)"
proof (intro conjI impI)
  assume "k < length (callers s) \<and> callers s ! k = Entered \<and> stopCleanup (store s) = None"
  then show "step (Test k) s = Some (s\<lparr> callers := (callers s)[k := Returned] \<rparr>)"
    by simp
next
  assume a: "\<not> 0 <s cleanupInterval (apply_options options defaultOptions) \<and> Sending \<notin> set cs \<and>
      run es (boot (New d options) cs) = Some s1"
  let ?s = "boot (New d options) cs"
  from a have n: "New d options =
      (\<lparr> db = d, stopCleanup = None, opts = apply_options options defaultOptions \<rparr>, NotSpawned)"
    by (simp add: New_def Let_def)
  have 1: "cleanup ?s = NotSpawned" and 2: "stopCleanup (store ?s) = None"
    and 3: "Sending \<notin> set (callers ?s)" and 4: "logged ?s = []"
    and 5: "store ?s = fst (New d options)"
    using a by (simp_all add: boot_def n)
  from a have r: "run es ?s = Some s1" by simp
  from run_not_spawned [OF 1 2 3 r] 2 4 5
  show "cleanup s1 = NotSpawned" and "store s1 = fst (New d options)"
    and "stopCleanup (store s1) = None" and "logged s1 = []" and "Sending \<notin> set (callers s1)"
    by simp_all
next
  assume "k < length (callers s) \<and> callers s ! k = Sending \<and> cleanup s = Selecting interval"
  then show "step (Handoff k) s =
        Some (s\<lparr> cleanup := Exited, callers := (callers s)[k := Returned] \<rparr>)"
    by simp
next
  assume "cleanup s = Exited \<and> run es s = Some s3"
  then have "cleanup s3 = Exited" by (auto intro: run_exited)
  then show "cleanup s3 = Exited" and "step (Handoff j) s3 = None" by simp_all
next
  assume a: "k < length (callers s) \<and> callers s ! k = Sending \<and> cleanup s = Exited \<and>
      run es s = Some s2"
  then have "cleanup s = Exited" and "k < length (callers s)" and "callers s ! k = Sending"
    and "run es s = Some s2"
    by simp_all
  from run_after_exit [OF this]
  show "cleanup s2 = Exited" and "callers s2 ! k = Sending" by simp_all
qed

theorem StopCleanup_delivery_witness:
  "step (Test 0) started = Some (started\<lparr> callers := [Returned, Entered] \<rparr>) \<and>
   run [Test 0, Test 1] never_started = Some (never_started\<lparr> callers := [Returned, Returned] \<rparr>) \<and>
   cleanup (never_started\<lparr> callers := [Returned, Returned] \<rparr>) = NotSpawned \<and>
   step (Handoff 0) (blocked\<lparr> cleanup := Selecting (5 * Minute), callers := [Sending, Entered] \<rparr>)
     = Some (blocked\<lparr> callers := [Returned, Entered] \<rparr>) \<and>
   step (Handoff 1) blocked = None \<and>
   run [Test 0] (blocked\<lparr> callers := [Entered, Sending] \<rparr>)
     = Some (blocked\<lparr> callers := [Sending, Sending] \<rparr>) \<and>
   callers (blocked\<lparr> callers := [Sending, Sending] \<rparr>) ! 1 = Sending"
proof (intro conjI)
  show "step (Test 0) started = Some (started\<lparr> callers := [Returned, Entered] \<rparr>)"
    using StopCleanup_delivery [where k = 0 and s = started]
    by (simp add: started_eq example_store_eq)
  have r: "run [Test 0, Test 1] never_started
             = Some (never_started\<lparr> callers := [Returned, Returned] \<rparr>)"
    by (simp add: never_started_eq)
  then show "run [Test 0, Test 1] never_started
             = Some (never_started\<lparr> callers := [Returned, Returned] \<rparr>)" .
  have z: "\<not> 0 <s cleanupInterval (apply_options [WithCleanupInterval 0] defaultOptions)"
    by (simp add: WithCleanupInterval_def)
  have c: "Sending \<notin> set [Entered, Entered]" by simp
  have r': "run [Test 0, Test 1] (boot (New example_db [WithCleanupInterval 0]) [Entered, Entered])
              = Some (never_started\<lparr> callers := [Returned, Returned] \<rparr>)"
    using r by (simp add: never_started_def NewWithCleanupInterval_def)
  from StopCleanup_delivery
         [where options = "[WithCleanupInterval 0]" and cs = "[Entered, Entered]"
            and es = "[Test 0, Test 1]" and d = example_db
            and ?s1.0 = "never_started\<lparr> callers := [Returned, Returned] \<rparr>",
          THEN conjunct2, THEN conjunct1, rule_format, OF conjI [OF z conjI [OF c r']]]
  show "cleanup (never_started\<lparr> callers := [Returned, Returned] \<rparr>) = NotSpawned"
    by (rule conjunct1)
  show "step (Handoff 0) (blocked\<lparr> cleanup := Selecting (5 * Minute), callers := [Sending, Entered] \<rparr>)
          = Some (blocked\<lparr> callers := [Returned, Entered] \<rparr>)"
    using StopCleanup_delivery
            [where k = 0 and interval = "5 * Minute"
               and s = "blocked\<lparr> cleanup := Selecting (5 * Minute), callers := [Sending, Entered] \<rparr>"]
    by (simp add: blocked_def)
  show "step (Handoff 1) blocked = None"
    using StopCleanup_delivery [where s = blocked and j = 1 and es = "[]" and ?s3.0 = blocked]
    by (simp add: blocked_def)
  have q: "run [Test 0] (blocked\<lparr> callers := [Entered, Sending] \<rparr>)
             = Some (blocked\<lparr> callers := [Sending, Sending] \<rparr>)"
    by (simp add: blocked_def)
  then show "run [Test 0] (blocked\<lparr> callers := [Entered, Sending] \<rparr>)
             = Some (blocked\<lparr> callers := [Sending, Sending] \<rparr>)" .
  have h: "1 < length (callers (blocked\<lparr> callers := [Entered, Sending] \<rparr>)) \<and>
           callers (blocked\<lparr> callers := [Entered, Sending] \<rparr>) ! 1 = Sending \<and>
           cleanup (blocked\<lparr> callers := [Entered, Sending] \<rparr>) = Exited \<and>
           run [Test 0] (blocked\<lparr> callers := [Entered, Sending] \<rparr>)
             = Some (blocked\<lparr> callers := [Sending, Sending] \<rparr>)"
    using q by (simp add: blocked_def)
  from StopCleanup_delivery
         [where k = 1 and s = "blocked\<lparr> callers := [Entered, Sending] \<rparr>" and es = "[Test 0]"
            and ?s2.0 = "blocked\<lparr> callers := [Sending, Sending] \<rparr>",
          THEN conjunct2, THEN conjunct2, THEN conjunct2, THEN conjunct2, rule_format, OF h]
  show "callers (blocked\<lparr> callers := [Sending, Sending] \<rparr>) ! 1 = Sending"
    by (rule conjunct2)
qed

text \<open>
  C6, as stated, fails on two calls: after the loop has received the first stop and
  returned, the second call passes the nil test (the channel is never reset), reaches
  the send on the unbuffered channel, and no step of the program is possible any more.
\<close>

theorem StopCleanup_twice_counterexample:
  "run [MakeChan, Test 0, Handoff 0, Test 1] started = Some blocked \<and>
   cleanup blocked = Exited \<and> callers blocked = [Returned, Sending] \<and>
   enabled blocked = []"
proof (intro conjI)
  show "run [MakeChan, Test 0, Handoff 0, Test 1] started = Some blocked"
    by (rule run_started)
  show "cleanup blocked = Exited" and "callers blocked = [Returned, Sending]"
    by (simp_all add: blocked_def)
  show "enabled blocked = []"
    by (simp add: enabled_def blocked_def upt_rec)
qed

end
